theory Spec2Isabelle
  imports Complex_Main "HOL-Library.AList"
begin

section \<open>The keyboard controller of src/controls/keyboard.js\<close>

text \<open>
  The controller is embedded by explicit state passing. Key codes are the integers a DOM
  key event carries in \<open>e.which\<close>; pan speeds and pan deltas are real numbers. A JavaScript
  object used as a dictionary with a handful of integer keys (\<open>state.keystate\<close>) is an
  association list, so that \<open>Object.keys\<close> can be enumerated; the handler registry is a map.
\<close>

subsection \<open>Values and errors\<close>

datatype error = TypeError string

text \<open>
  The argument \<open>key\<close> of \<open>use\<close> and \<open>isKeySupported\<close>: a string, a number, or a value of any
  other JavaScript type (\<open>undefined\<close>, \<open>null\<close>, a boolean, an object).
\<close>

datatype key = KStr string | KNum int | KOther

record key_event =
  which :: int

record keydata =
  kd_name :: "string option"
  kd_code :: int

subsection \<open>The scene (\<open>this.scope\<close>), read on every key event\<close>

text \<open>
  \<open>constraints\<close> is \<open>scope.projections.constraints\<close>: \<open>None\<close> when it is falsy,
  \<open>Some None\<close> when its \<open>keys\<close> member is falsy, \<open>Some (Some ks)\<close> otherwise.
\<close>

record scope =
  forceFocus :: bool
  isFocused :: bool
  controllerUpdateTimeout :: nat
  constraints :: "(int \<rightharpoonup> bool) option option"

subsection \<open>The controller state (\<open>this.state\<close>) and the effects it causes\<close>

text \<open>
  \<open>timers\<close> and \<open>nextTimer\<close> are the host's timer table (pending handle and delay, and the
  next fresh handle); \<open>pans\<close>, \<open>emitted\<close> and \<open>prevented\<close> record, in order, the calls of
  \<open>this.pan\<close>, \<open>scope.emit\<close> and \<open>e.preventDefault\<close>; \<open>camera\<close> is the state owned by
  the base controller.
\<close>

record 'c kstate =
  isEnabled :: bool
  forceUpdate :: bool
  keystate :: "(int \<times> bool) list"
  panSpeed :: real
  keyupTimeout :: "nat option"
  timers :: "(nat \<times> nat) list"
  nextTimer :: nat
  pans :: "(real \<times> real) list"
  emitted :: "(string \<times> key_event) list"
  prevented :: "key_event list"
  camera :: 'c

text \<open>
  A handler is called with \<open>this\<close> bound to the controller and with \<open>{name, code}\<close>. The
  registry \<open>state.handlers\<close> is kept beside the state the handlers act on.
\<close>

type_synonym 'c handler = "keydata \<Rightarrow> 'c kstate \<Rightarrow> 'c kstate"

record 'c controller =
  handlers :: "int \<rightharpoonup> 'c handler list"
  state :: "'c kstate"

text \<open>
  What the file requires from other packages is a parameter: the name-to-code lookup of the
  \<open>keycode\<close> package (\<open>None\<close> is \<open>undefined\<close>) and the constant
  \<open>DEFAULT_KEY_PAN_SPEED\<close> of \<open>../constants\<close>.
\<close>

text \<open>
  Modelled from the spec: \<open>AxisController.prototype.reset\<close> and
  \<open>AxisController.prototype.update\<close> of \<open>./controller\<close>, absent from the sources, are opaque
  steps of the base controller on the camera state it owns.
\<close>

record 'c env =
  keycode :: "string \<Rightarrow> int option"
  DEFAULT_KEY_PAN_SPEED :: real
  AxisController_reset :: "'c \<Rightarrow> 'c"
  AxisController_update :: "'c \<Rightarrow> 'c"

type_synonym ('e, 'a) result = "('e \<times> 'a) + 'a"

subsection \<open>The key code table and \<open>keyname\<close>\<close>

definition keycodes :: "(string \<times> int) list" where
  "keycodes = [(''esc'', 27), (''space'', 32), (''left'', 37), (''up'', 38),
               (''right'', 39), (''down'', 40)]"

fun keyname_in :: "(string \<times> int) list \<Rightarrow> int \<Rightarrow> string option" where
  "keyname_in [] c = None"
| "keyname_in ((n, k) # rest) c = (if c = k then Some n else keyname_in rest c)"

definition keyname :: "int \<Rightarrow> string option" where
  "keyname c = keyname_in keycodes c"

definition keynames :: "string list" where
  "keynames = [''up'', ''down'', ''left'', ''right'']"

definition supported :: "'c env \<Rightarrow> int option list" where
  "supported E = map (keycode E) keynames"

definition state_keycodes :: "'c env \<Rightarrow> int option list" where
  "state_keycodes E = map (keycode E) keynames"

definition isKeydown :: "'c kstate \<Rightarrow> bool" where
  "isKeydown s = list_ex (\<lambda>c. map_of (keystate s) c = Some True) (map fst (keystate s))"

subsection \<open>Host and base-controller primitives\<close>

definition clearTimeout :: "nat option \<Rightarrow> 'c kstate \<Rightarrow> 'c kstate" where
  "clearTimeout h s =
     (case h of None \<Rightarrow> s
      | Some i \<Rightarrow> s\<lparr>timers := filter (\<lambda>t. fst t \<noteq> i) (timers s)\<rparr>)"

definition setTimeout :: "nat \<Rightarrow> 'c kstate \<Rightarrow> nat \<times> 'c kstate" where
  "setTimeout d s =
     (nextTimer s, s\<lparr>timers := timers s @ [(nextTimer s, d)], nextTimer := Suc (nextTimer s)\<rparr>)"

text \<open>
  The callback that \<open>onkeyup\<close> schedules, run by the host when timer \<open>i\<close> is due; a handle
  that is not pending does nothing.
\<close>

definition fire :: "nat \<Rightarrow> 'c kstate \<Rightarrow> 'c kstate" where
  "fire i s =
     (if i \<in> fst ` set (timers s)
      then s\<lparr>timers := filter (\<lambda>t. fst t \<noteq> i) (timers s), forceUpdate := False\<rparr>
      else s)"

text \<open>
  Modelled from the spec: \<open>pan\<close> of the base controller, absent from the sources, applies a
  camera offset \<open>{x, y}\<close>; the model records the offset as an issued pan command.
\<close>

definition pan :: "real \<times> real \<Rightarrow> 'c kstate \<Rightarrow> 'c kstate" where
  "pan d s = s\<lparr>pans := pans s @ [d]\<rparr>"

subsection \<open>\<open>reset\<close>, \<open>use\<close>, \<open>isKeySupported\<close>\<close>

definition reset :: "'c env \<Rightarrow> 'c kstate \<Rightarrow> 'c kstate" where
  "reset E s =
     (let s1 = clearTimeout (keyupTimeout s) s;
          s2 = s1\<lparr>camera := AxisController_reset E (camera s1)\<rparr>
      in s2\<lparr>keystate := map (\<lambda>(c, v). (c, False)) (keystate s2)\<rparr>)"

text \<open>\<open>key = 'string' == typeof key ? keycode(key) : key\<close>\<close>

definition normalize :: "'c env \<Rightarrow> key \<Rightarrow> key" where
  "normalize E k =
     (case k of
        KStr n \<Rightarrow> (case keycode E n of Some c \<Rightarrow> KNum c | None \<Rightarrow> KOther)
      | KNum c \<Rightarrow> KNum c
      | KOther \<Rightarrow> KOther)"

definition use ::
  "'c env \<Rightarrow> key \<Rightarrow> 'c handler \<Rightarrow> 'c controller \<Rightarrow> (error, 'c controller) result" where
  "use E k fn c =
     (case normalize E k of
        KNum n \<Rightarrow>
          Inr (c\<lparr>handlers := (handlers c)
                  (n \<mapsto> (case handlers c n of None \<Rightarrow> [] | Some hs \<Rightarrow> hs) @ [fn])\<rparr>)
      | KStr n \<Rightarrow> Inl (TypeError ''Expecting string or number.'', c)
      | KOther \<Rightarrow> Inl (TypeError ''Expecting string or number.'', c))"

definition constrained :: "scope \<Rightarrow> int \<Rightarrow> bool" where
  "constrained sc n =
     (case constraints sc of
        None \<Rightarrow> False
      | Some None \<Rightarrow> False
      | Some (Some ks) \<Rightarrow> ks n = Some True)"

definition isKeySupported :: "'c env \<Rightarrow> scope \<Rightarrow> key \<Rightarrow> bool" where
  "isKeySupported E sc k =
     (case normalize E k of
        KNum n \<Rightarrow>
          (if constrained sc n then False
           else if Some n \<notin> set (supported E) then False
           else True)
      | KStr n \<Rightarrow> False
      | KOther \<Rightarrow> False)"

subsection \<open>The key event handlers\<close>

definition onkeydown :: "'c env \<Rightarrow> scope \<Rightarrow> key_event \<Rightarrow> 'c kstate \<Rightarrow> 'c kstate" where
  "onkeydown E sc e s =
     (let focused = (forceFocus sc \<or> isFocused sc);
          s1 = clearTimeout (keyupTimeout s) s
      in if \<not> isEnabled s1 then s1
         else if focused then
           (if \<not> isKeySupported E sc (KNum (which e)) then s1
            else s1\<lparr>keystate := AList.update (which e) True (keystate s1),
                    prevented := prevented s1 @ [e],
                    emitted := emitted s1 @ [(''keydown'', e)]\<rparr>)
         else s1\<lparr>emitted := emitted s1 @ [(''keydown'', e)]\<rparr>)"

definition onkeyup :: "scope \<Rightarrow> key_event \<Rightarrow> 'c kstate \<Rightarrow> 'c kstate" where
  "onkeyup sc e s =
     (let focused = (forceFocus sc \<or> isFocused sc);
          s1 = s\<lparr>keystate := AList.update (which e) False (keystate s)\<rparr>
      in if focused then
           (let s2 = s1\<lparr>forceUpdate := True\<rparr>;
                s3 = clearTimeout (keyupTimeout s2) s2;
                (h, s4) = setTimeout (controllerUpdateTimeout sc) s3
            in s4\<lparr>keyupTimeout := Some h\<rparr>)
         else s1)"

subsection \<open>\<open>update\<close>: the per-tick dispatch\<close>

fun call_handlers :: "int \<Rightarrow> 'c handler list \<Rightarrow> 'c kstate \<Rightarrow> 'c kstate" where
  "call_handlers c [] s = s"
| "call_handlers c (handle # rest) s =
     call_handlers c rest
       (if map_of (keystate s) c = Some True
        then handle \<lparr>kd_name = keyname c, kd_code = c\<rparr> s
        else s)"

text \<open>
  \<open>handlers[code].forEach\<close> throws a TypeError when no handler list is registered for a code
  of \<open>state.keycodes\<close> (or the code is \<open>undefined\<close>); the state reached so far is kept.
  The locals that \<open>update\<close> reads from the base controller's state before its first test
  are not used by it.
\<close>

fun each_keycode ::
  "(int \<rightharpoonup> 'c handler list) \<Rightarrow> int option list \<Rightarrow> 'c kstate \<Rightarrow> (error, 'c kstate) result" where
  "each_keycode H [] s = Inr s"
| "each_keycode H (None # cs) s = Inl (TypeError ''handlers[code] is undefined'', s)"
| "each_keycode H (Some c # cs) s =
     (case H c of
        None \<Rightarrow> Inl (TypeError ''handlers[code] is undefined'', s)
      | Some hs \<Rightarrow> each_keycode H cs (call_handlers c hs s))"

definition update :: "'c env \<Rightarrow> 'c controller \<Rightarrow> (error, 'c controller) result" where
  "update E c =
     (if \<not> isKeydown (state c) then Inr c
      else (case each_keycode (handlers c) (state_keycodes E) (state c) of
              Inl (err, s) \<Rightarrow> Inl (err, c\<lparr>state := s\<rparr>)
            | Inr s \<Rightarrow> Inr (c\<lparr>state := s\<lparr>camera := AxisController_update E (camera s)\<rparr>\<rparr>)))"

subsection \<open>The constructor and its four default bindings\<close>

definition on_up :: "'c handler" where
  "on_up d s = pan (0, - panSpeed s / 2) s"

definition on_down :: "'c handler" where
  "on_down d s = pan (0, panSpeed s / 2) s"

definition on_left :: "'c handler" where
  "on_left d s = pan (- panSpeed s * 2, 0) s"

definition on_right :: "'c handler" where
  "on_right d s = pan (panSpeed s * 2, 0) s"

text \<open>
  \<open>s0\<close> is the state as \<open>AxisController.call(this, scope, document)\<close> leaves it. A \<open>use\<close> that
  throws ends the constructor.
\<close>

definition KeyboardController ::
  "'c env \<Rightarrow> 'c kstate \<Rightarrow> (error, 'c controller) result" where
  "KeyboardController E s0 =
     (let c0 = \<lparr>handlers = Map.empty,
                state = reset E (s0\<lparr>keystate := [], panSpeed := DEFAULT_KEY_PAN_SPEED E\<rparr>)\<rparr>
      in case use E (KStr ''up'') on_up c0 of
           Inl x \<Rightarrow> Inl x
         | Inr c1 \<Rightarrow>
             (case use E (KStr ''down'') on_down c1 of
                Inl x \<Rightarrow> Inl x
              | Inr c2 \<Rightarrow>
                  (case use E (KStr ''left'') on_left c2 of
                     Inl x \<Rightarrow> Inl x
                   | Inr c3 \<Rightarrow> use E (KStr ''right'') on_right c3)))"

subsection \<open>The single-threaded event loop\<close>

text \<open>
  The host calls into the controller one event at a time: a DOM key event with the scene as
  it is at that moment, a render tick (\<open>update\<close>; a throw leaves the state reached), a
  \<open>reset\<close>, or a timer that becomes due.
\<close>

datatype event = KeyDown scope key_event | KeyUp scope key_event | Tick | Reset | Fire nat

definition step :: "'c env \<Rightarrow> event \<Rightarrow> 'c controller \<Rightarrow> 'c controller" where
  "step E ev c =
     (case ev of
        KeyDown sc e \<Rightarrow> c\<lparr>state := onkeydown E sc e (state c)\<rparr>
      | KeyUp sc e \<Rightarrow> c\<lparr>state := onkeyup sc e (state c)\<rparr>
      | Tick \<Rightarrow> (case update E c of Inl (err, c') \<Rightarrow> c' | Inr c' \<Rightarrow> c')
      | Reset \<Rightarrow> c\<lparr>state := reset E (state c)\<rparr>
      | Fire i \<Rightarrow> c\<lparr>state := fire i (state c)\<rparr>)"

definition run :: "'c env \<Rightarrow> event list \<Rightarrow> 'c controller \<Rightarrow> 'c controller" where
  "run E evs c = foldl (\<lambda>c' ev. step E ev c') c evs"

text \<open>
  \<open>one_pending\<close>: at most one timer is pending, it is the one whose handle
  \<open>state.keyupTimeout\<close> holds, and that handle was issued by the host. \<open>leaves_debounce\<close>:
  a handler that does not touch the debounce fields. \<open>quiet\<close>: an event that is neither a
  focused key-up nor a \<open>reset\<close>. \<open>same_debounce\<close>: two states agree on the debounce fields.
\<close>

definition one_pending :: "'c kstate \<Rightarrow> bool" where
  "one_pending s \<longleftrightarrow>
     length (timers s) \<le> 1 \<and>
     list_all (\<lambda>t. keyupTimeout s = Some (fst t)) (timers s) \<and>
     (case keyupTimeout s of None \<Rightarrow> True | Some h \<Rightarrow> h < nextTimer s)"

definition leaves_debounce :: "'c handler \<Rightarrow> bool" where
  "leaves_debounce h \<longleftrightarrow>
     (\<forall>d s. timers (h d s) = timers s \<and> keyupTimeout (h d s) = keyupTimeout s \<and>
            nextTimer (h d s) = nextTimer s \<and> forceUpdate (h d s) = forceUpdate s)"

definition handlers_leave_debounce :: "'c controller \<Rightarrow> bool" where
  "handlers_leave_debounce c \<longleftrightarrow>
     (\<forall>n hs. handlers c n = Some hs \<longrightarrow> list_all leaves_debounce hs)"

definition quiet :: "event \<Rightarrow> bool" where
  "quiet ev =
     (case ev of
        KeyDown sc e \<Rightarrow> True
      | KeyUp sc e \<Rightarrow> \<not> (forceFocus sc \<or> isFocused sc)
      | Tick \<Rightarrow> True
      | Reset \<Rightarrow> False
      | Fire i \<Rightarrow> True)"

definition same_debounce :: "'c kstate \<Rightarrow> 'c kstate \<Rightarrow> bool" where
  "same_debounce s t \<longleftrightarrow>
     timers t = timers s \<and> keyupTimeout t = keyupTimeout s \<and>
     nextTimer t = nextTimer s \<and> forceUpdate t = forceUpdate s"

subsection \<open>Abbreviations used in the statements\<close>

text \<open>
  \<open>held s c\<close> is the test \<open>this.state.keystate[code]\<close> of \<open>update\<close>; \<open>registered c n\<close>
  is the handler list of a code, empty when \<open>handlers[n]\<close> is absent; \<open>standard_lookup\<close>
  says that the name lookup gives the four navigation names their DOM key codes.
  \<open>keeps_keystate\<close>: a handler that does not write \<open>state.keystate\<close>.
  \<open>tick_calls reg s cs\<close> lists the handler calls of one tick in state \<open>s\<close>: for each code of
  \<open>cs\<close> in order, when the code is held, each handler registered for it, in the order of
  the list. \<open>apply_calls\<close> makes such calls one after the other, each with
  \<open>{name: keyname(code), code: code}\<close>.
\<close>

definition held :: "'c kstate \<Rightarrow> int \<Rightarrow> bool" where
  "held s c \<longleftrightarrow> map_of (keystate s) c = Some True"

definition registered :: "'c controller \<Rightarrow> int \<Rightarrow> 'c handler list" where
  "registered c n = (case handlers c n of None \<Rightarrow> [] | Some hs \<Rightarrow> hs)"

definition standard_lookup :: "'c env \<Rightarrow> bool" where
  "standard_lookup E \<longleftrightarrow>
     keycode E ''up'' = Some 38 \<and> keycode E ''down'' = Some 40 \<and>
     keycode E ''left'' = Some 37 \<and> keycode E ''right'' = Some 39"

definition keeps_keystate :: "'c handler \<Rightarrow> bool" where
  "keeps_keystate h \<longleftrightarrow> (\<forall>d t. keystate (h d t) = keystate t)"

definition tick_calls ::
  "(int \<Rightarrow> 'c handler list) \<Rightarrow> 'c kstate \<Rightarrow> int list \<Rightarrow> (int \<times> 'c handler) list" where
  "tick_calls reg s cs =
     concat (map (\<lambda>m. if held s m then map (Pair m) (reg m) else []) cs)"

definition apply_calls :: "'c kstate \<Rightarrow> (int \<times> 'c handler) list \<Rightarrow> 'c kstate" where
  "apply_calls s calls =
     foldl (\<lambda>t (m, h). h \<lparr>kd_name = keyname m, kd_code = m\<rparr> t) s calls"

subsection \<open>A concrete instance\<close>

text \<open>
  An environment whose name lookup is the file's own \<open>keycodes\<close> table, with a pan speed
  of 20 and base steps that leave the camera alone; a focused scene that constrains the
  right key; and a freshly initialised, enabled base state.
\<close>

definition table_env :: "unit env" where
  "table_env = \<lparr>keycode = map_of keycodes, DEFAULT_KEY_PAN_SPEED = 20,
                 AxisController_reset = (\<lambda>u. u), AxisController_update = (\<lambda>u. u)\<rparr>"

definition focused_scope :: scope where
  "focused_scope = \<lparr>forceFocus = False, isFocused = True, controllerUpdateTimeout = 600,
                     constraints = Some (Some [39 \<mapsto> True])\<rparr>"

definition blurred_scope :: scope where
  "blurred_scope = \<lparr>forceFocus = False, isFocused = False, controllerUpdateTimeout = 600,
                     constraints = None\<rparr>"

definition base_state :: "unit kstate" where
  "base_state = \<lparr>isEnabled = True, forceUpdate = False, keystate = [], panSpeed = 0,
                  keyupTimeout = None, timers = [], nextTimer = 0, pans = [], emitted = [],
                  prevented = [], camera = ()\<rparr>"

definition bare_controller :: "unit controller" where
  "bare_controller = \<lparr>handlers = Map.empty, state = base_state\<rparr>"

text \<open>
  The controller the constructor builds in this environment, and two handlers that record
  the code they are called with.
\<close>

definition probe_a :: "unit handler" where
  "probe_a d s = pan (of_int (kd_code d), 1) s"

definition probe_b :: "unit handler" where
  "probe_b d s = pan (of_int (kd_code d), 2) s"

definition table_controller :: "unit controller" where
  "table_controller =
     \<lparr>handlers = [38 \<mapsto> [on_up], 40 \<mapsto> [on_down], 37 \<mapsto> [on_left], 39 \<mapsto> [on_right]],
      state = base_state\<lparr>panSpeed := 20\<rparr>\<rparr>"

section \<open>Properties\<close>

subsection \<open>Helper facts\<close>

lemma supported_numeric:
  "isKeySupported E sc (KNum n) \<longleftrightarrow> Some n \<in> set (supported E) \<and> \<not> constrained sc n"
  by (simp add: isKeySupported_def normalize_def)

lemma clearTimeout_fields [simp]:
  "keystate (clearTimeout h s) = keystate s"
  "isEnabled (clearTimeout h s) = isEnabled s"
  "forceUpdate (clearTimeout h s) = forceUpdate s"
  "emitted (clearTimeout h s) = emitted s"
  "prevented (clearTimeout h s) = prevented s"
  "pans (clearTimeout h s) = pans s"
  "panSpeed (clearTimeout h s) = panSpeed s"
  "keyupTimeout (clearTimeout h s) = keyupTimeout s"
  "nextTimer (clearTimeout h s) = nextTimer s"
  "camera (clearTimeout h s) = camera s"
  by (simp_all add: clearTimeout_def split: option.split)

lemma isKeydown_iff: "isKeydown s \<longleftrightarrow> (\<exists>c. map_of (keystate s) c = Some True)"
proof
  assume "isKeydown s"
  then show "\<exists>c. map_of (keystate s) c = Some True"
    by (auto simp: isKeydown_def list_ex_iff)
next
  assume "\<exists>c. map_of (keystate s) c = Some True"
  then obtain c where c: "map_of (keystate s) c = Some True" ..
  then have "c \<in> fst ` set (keystate s)"
    by (auto dest: map_of_SomeD intro: rev_image_eqI)
  with c show "isKeydown s"
    by (auto simp: isKeydown_def list_ex_iff)
qed

lemma use_string:
  "keycode E nm = Some n \<Longrightarrow>
   use E (KStr nm) fn c = Inr (c\<lparr>handlers := (handlers c)(n \<mapsto> registered c n @ [fn])\<rparr>)"
  by (simp add: use_def normalize_def registered_def)

lemma KeyboardController_standard:
  assumes "standard_lookup E"
  shows "KeyboardController E s0 =
     Inr \<lparr>handlers = [38 \<mapsto> [on_up], 40 \<mapsto> [on_down], 37 \<mapsto> [on_left], 39 \<mapsto> [on_right]],
          state = reset E (s0\<lparr>keystate := [], panSpeed := DEFAULT_KEY_PAN_SPEED E\<rparr>)\<rparr>"
proof -
  from assms have k: "keycode E ''up'' = Some 38" "keycode E ''down'' = Some 40"
      "keycode E ''left'' = Some 37" "keycode E ''right'' = Some 39"
    by (simp_all add: standard_lookup_def)
  show ?thesis
    by (simp add: KeyboardController_def Let_def use_string [OF k(1)] use_string [OF k(2)]
          use_string [OF k(3)] use_string [OF k(4)] registered_def)
qed

lemma call_handlers_not_held:
  "map_of (keystate s) c \<noteq> Some True \<Longrightarrow> call_handlers c hs s = s"
  by (induction hs) simp_all

lemma call_handlers_held:
  assumes "map_of (keystate s) c = Some True"
    and "\<And>h d t. h \<in> set hs \<Longrightarrow> keystate (h d t) = keystate t"
  shows "call_handlers c hs s = foldl (\<lambda>t h. h \<lparr>kd_name = keyname c, kd_code = c\<rparr> t) s hs"
  using assms
proof (induction hs arbitrary: s)
  case Nil
  show ?case by simp
next
  case (Cons h hs)
  have "map_of (keystate (h \<lparr>kd_name = keyname c, kd_code = c\<rparr> s)) c = Some True"
    using Cons.prems by simp
  then have "call_handlers c hs (h \<lparr>kd_name = keyname c, kd_code = c\<rparr> s)
      = foldl (\<lambda>t h. h \<lparr>kd_name = keyname c, kd_code = c\<rparr> t) (h \<lparr>kd_name = keyname c, kd_code = c\<rparr> s) hs"
    using Cons.prems(2) by (intro Cons.IH) simp_all
  with Cons.prems(1) show ?case by simp
qed

lemma apply_calls_append:
  "apply_calls s (xs @ ys) = apply_calls (apply_calls s xs) ys"
  by (simp add: apply_calls_def)

lemma apply_calls_one_code:
  "apply_calls s (map (Pair m) hs) =
     foldl (\<lambda>t h. h \<lparr>kd_name = keyname m, kd_code = m\<rparr> t) s hs"
  by (simp add: apply_calls_def foldl_map)

lemma apply_calls_keystate:
  "list_all (\<lambda>p. keeps_keystate (snd p)) calls \<Longrightarrow> keystate (apply_calls s calls) = keystate s"
proof (induction calls arbitrary: s)
  case Nil
  show ?case by (simp add: apply_calls_def)
next
  case (Cons p calls)
  obtain m h where p: "p = (m, h)" by (cases p)
  from Cons.prems have h: "keeps_keystate h" and rest: "list_all (\<lambda>p. keeps_keystate (snd p)) calls"
    by (simp_all add: p)
  have "apply_calls s (p # calls) = apply_calls (h \<lparr>kd_name = keyname m, kd_code = m\<rparr> s) calls"
    by (simp add: apply_calls_def p)
  also have "keystate \<dots> = keystate (h \<lparr>kd_name = keyname m, kd_code = m\<rparr> s)"
    by (rule Cons.IH [OF rest])
  also have "\<dots> = keystate s"
    using h by (simp add: keeps_keystate_def)
  finally show ?case .
qed

lemma tick_calls_keystate:
  "keystate t = keystate s \<Longrightarrow> tick_calls reg t cs = tick_calls reg s cs"
  by (simp add: tick_calls_def held_def)

lemma call_handlers_calls:
  assumes "list_all keeps_keystate hs"
  shows "call_handlers m hs s = apply_calls s (if held s m then map (Pair m) hs else [])"
proof (cases "held s m")
  case True
  then have down: "map_of (keystate s) m = Some True"
    by (simp add: held_def)
  have keeps: "\<And>h d t. h \<in> set hs \<Longrightarrow> keystate (h d t) = keystate t"
    using assms by (simp add: list_all_iff keeps_keystate_def)
  from call_handlers_held [of s m hs, OF down] keeps True show ?thesis
    by (simp add: apply_calls_one_code)
next
  case False
  then have "map_of (keystate s) m \<noteq> Some True"
    by (simp add: held_def)
  from call_handlers_not_held [OF this] False show ?thesis
    by (simp add: apply_calls_def)
qed

lemma each_keycode_calls:
  assumes "list_all (\<lambda>m. H m = Some (reg m) \<and> list_all keeps_keystate (reg m)) cs"
  shows "each_keycode H (map Some cs) s = Inr (apply_calls s (tick_calls reg s cs))"
  using assms
proof (induction cs arbitrary: s)
  case Nil
  show ?case by (simp add: tick_calls_def apply_calls_def)
next
  case (Cons m cs)
  let ?now = "if held s m then map (Pair m) (reg m) else []"
  let ?t = "apply_calls s ?now"
  from Cons.prems have H: "H m = Some (reg m)" and keep: "list_all keeps_keystate (reg m)"
    and rest: "list_all (\<lambda>m. H m = Some (reg m) \<and> list_all keeps_keystate (reg m)) cs"
    by simp_all
  have t: "call_handlers m (reg m) s = ?t"
    by (rule call_handlers_calls [OF keep])
  have "list_all (\<lambda>p. keeps_keystate (snd p)) ?now"
    using keep by (auto simp: list_all_iff)
  then have same: "keystate ?t = keystate s"
    by (rule apply_calls_keystate)
  have "each_keycode H (map Some (m # cs)) s = each_keycode H (map Some cs) ?t"
    using H t by (simp del: call_handlers.simps)
  also have "\<dots> = Inr (apply_calls ?t (tick_calls reg ?t cs))"
    by (rule Cons.IH [OF rest])
  also have "tick_calls reg ?t cs = tick_calls reg s cs"
    by (rule tick_calls_keystate [OF same])
  also have "apply_calls ?t (tick_calls reg s cs) = apply_calls s (?now @ tick_calls reg s cs)"
    by (simp only: apply_calls_append)
  also have "?now @ tick_calls reg s cs = tick_calls reg s (m # cs)"
    by (simp add: tick_calls_def)
  finally show ?case .
qed

lemma tick_calls_keep:
  assumes "list_all (\<lambda>m. list_all keeps_keystate (reg m)) cs"
  shows "list_all (\<lambda>p. keeps_keystate (snd p)) (tick_calls reg s cs)"
  using assms by (induction cs) (auto simp: tick_calls_def list_all_iff)

lemma tick_calls_segment:
  assumes "n \<in> set cs" and "held s n"
  shows "\<exists>before after. tick_calls reg s cs = before @ map (Pair n) (reg n) @ after"
proof -
  from assms(1) obtain as bs where cs: "cs = as @ n # bs"
    by (auto dest: split_list)
  have "tick_calls reg s cs =
      tick_calls reg s as @ map (Pair n) (reg n) @ tick_calls reg s bs"
    using assms(2) by (simp add: cs tick_calls_def)
  then show ?thesis by blast
qed

lemma default_handler_fields [simp]:
  "keystate (on_up d s) = keystate s" "panSpeed (on_up d s) = panSpeed s"
  "keystate (on_down d s) = keystate s" "panSpeed (on_down d s) = panSpeed s"
  "keystate (on_left d s) = keystate s" "panSpeed (on_left d s) = panSpeed s"
  "keystate (on_right d s) = keystate s" "panSpeed (on_right d s) = panSpeed s"
  by (simp_all add: on_up_def on_down_def on_left_def on_right_def pan_def)

lemma state_keycodes_standard:
  "standard_lookup E \<Longrightarrow> state_keycodes E = [Some 38, Some 40, Some 37, Some 39]"
  by (simp add: standard_lookup_def state_keycodes_def keynames_def)

lemma call_default_handler:
  "call_handlers c [on_up] s =
     s\<lparr>pans := pans s @ (if held s c then [(0, - panSpeed s / 2)] else [])\<rparr>"
  "call_handlers c [on_down] s =
     s\<lparr>pans := pans s @ (if held s c then [(0, panSpeed s / 2)] else [])\<rparr>"
  "call_handlers c [on_left] s =
     s\<lparr>pans := pans s @ (if held s c then [(- panSpeed s * 2, 0)] else [])\<rparr>"
  "call_handlers c [on_right] s =
     s\<lparr>pans := pans s @ (if held s c then [(panSpeed s * 2, 0)] else [])\<rparr>"
  by (simp_all add: held_def on_up_def on_down_def on_left_def on_right_def pan_def)

lemma held_pans_update [simp]: "held (s\<lparr>pans := p\<rparr>) c = held s c"
  by (simp add: held_def)


subsection \<open>The debounce fields\<close>

lemma same_debounce_refl [simp]: "same_debounce s s"
  by (simp add: same_debounce_def)

lemma same_debounce_trans: "same_debounce s t \<Longrightarrow> same_debounce t u \<Longrightarrow> same_debounce s u"
  by (simp add: same_debounce_def)

lemma call_handlers_debounce:
  "list_all leaves_debounce hs \<Longrightarrow> same_debounce s (call_handlers c hs s)"
proof (induction hs arbitrary: s)
  case Nil
  show ?case by simp
next
  case (Cons h hs)
  let ?t = "if map_of (keystate s) c = Some True
            then h \<lparr>kd_name = keyname c, kd_code = c\<rparr> s else s"
  from Cons.prems have "same_debounce s ?t"
    by (simp add: leaves_debounce_def same_debounce_def)
  moreover from Cons have "same_debounce ?t (call_handlers c hs ?t)"
    by simp
  ultimately have "same_debounce s (call_handlers c hs ?t)"
    by (rule same_debounce_trans)
  then show ?case
    by (simp only: call_handlers.simps)
qed

lemma each_keycode_debounce:
  assumes "\<And>n hs. H n = Some hs \<Longrightarrow> list_all leaves_debounce hs"
  shows "same_debounce s (case each_keycode H cs s of Inl (err, t) \<Rightarrow> t | Inr t \<Rightarrow> t)"
proof (induction cs arbitrary: s)
  case Nil
  show ?case by simp
next
  case (Cons c cs)
  show ?case
  proof (cases c)
    case None
    then show ?thesis by simp
  next
    case (Some n)
    show ?thesis
    proof (cases "H n")
      case None
      with Some show ?thesis by simp
    next
      case (Some hs)
      then have "same_debounce s (call_handlers n hs s)"
        using assms call_handlers_debounce by blast
      moreover have "same_debounce (call_handlers n hs s)
          (case each_keycode H cs (call_handlers n hs s) of Inl (err, t) \<Rightarrow> t | Inr t \<Rightarrow> t)"
        by (rule Cons.IH)
      ultimately have "same_debounce s
          (case each_keycode H cs (call_handlers n hs s) of Inl (err, t) \<Rightarrow> t | Inr t \<Rightarrow> t)"
        by (rule same_debounce_trans)
      with \<open>c = Some n\<close> Some show ?thesis
        by simp
    qed
  qed
qed

lemma tick_debounce:
  assumes "handlers_leave_debounce c"
  shows "same_debounce (state c) (state (step E Tick c))"
    and "handlers (step E Tick c) = handlers c"
proof -
  have H: "\<And>n hs. handlers c n = Some hs \<Longrightarrow> list_all leaves_debounce hs"
    using assms by (simp add: handlers_leave_debounce_def)
  note d = each_keycode_debounce [of "handlers c" "state c" "state_keycodes E", OF H]
  show "same_debounce (state c) (state (step E Tick c))"
    using d by (auto simp: step_def update_def same_debounce_def split: sum.splits)
  show "handlers (step E Tick c) = handlers c"
    by (auto simp: step_def update_def split: sum.splits)
qed

lemma step_handlers [simp]: "handlers (step E ev c) = handlers c"
  by (cases ev) (auto simp: step_def update_def split: sum.splits)

lemma run_handlers [simp]: "handlers (run E evs c) = handlers c"
  unfolding run_def by (induction evs arbitrary: c) simp_all

lemma clearTimeout_one_pending:
  "one_pending s \<Longrightarrow> timers (clearTimeout (keyupTimeout s) s) = []"
  by (cases "timers s"; cases "keyupTimeout s")
     (auto simp: one_pending_def clearTimeout_def)

lemma onkeydown_debounce:
  "timers (onkeydown E sc e s) = timers (clearTimeout (keyupTimeout s) s)"
  "keyupTimeout (onkeydown E sc e s) = keyupTimeout s"
  "nextTimer (onkeydown E sc e s) = nextTimer s"
  "forceUpdate (onkeydown E sc e s) = forceUpdate s"
  by (simp_all add: onkeydown_def Let_def)

lemma onkeyup_blurred:
  "\<not> (forceFocus sc \<or> isFocused sc) \<Longrightarrow> same_debounce s (onkeyup sc e s)"
  by (simp add: onkeyup_def same_debounce_def)

lemma onkeyup_focused:
  assumes "forceFocus sc \<or> isFocused sc"
  shows "timers (onkeyup sc e s) =
           timers (clearTimeout (keyupTimeout s) s) @ [(nextTimer s, controllerUpdateTimeout sc)]"
    and "keyupTimeout (onkeyup sc e s) = Some (nextTimer s)"
    and "nextTimer (onkeyup sc e s) = Suc (nextTimer s)"
    and "forceUpdate (onkeyup sc e s) = True"
  using assms by (auto simp: onkeyup_def Let_def setTimeout_def clearTimeout_def split: option.splits)

lemma reset_debounce:
  "timers (reset E s) = timers (clearTimeout (keyupTimeout s) s)"
  "keyupTimeout (reset E s) = keyupTimeout s"
  "nextTimer (reset E s) = nextTimer s"
  "forceUpdate (reset E s) = forceUpdate s"
  by (simp_all add: reset_def Let_def)

lemma fire_one_pending:
  "one_pending s \<Longrightarrow> one_pending (fire i s)"
  by (cases "timers s") (auto simp: one_pending_def fire_def split: option.splits)

lemma step_one_pending:
  assumes "one_pending (state c)" and "handlers_leave_debounce c"
  shows "one_pending (state (step E ev c))"
proof (cases ev)
  case (KeyDown sc e)
  with assms(1) clearTimeout_one_pending [OF assms(1)] show ?thesis
    by (simp add: step_def one_pending_def onkeydown_debounce split: option.splits)
next
  case (KeyUp sc e)
  show ?thesis
  proof (cases "forceFocus sc \<or> isFocused sc")
    case True
    with KeyUp clearTimeout_one_pending [OF assms(1)] show ?thesis
      by (simp add: step_def one_pending_def onkeyup_focused)
  next
    case False
    from onkeyup_blurred [OF False, of "state c" e] assms(1) KeyUp show ?thesis
      by (simp add: step_def one_pending_def same_debounce_def split: option.splits)
  qed
next
  case Tick
  from tick_debounce(1) [OF assms(2), of E] assms(1) Tick show ?thesis
    by (simp add: one_pending_def same_debounce_def split: option.splits)
next
  case Reset
  with assms(1) clearTimeout_one_pending [OF assms(1)] show ?thesis
    by (simp add: step_def one_pending_def reset_debounce split: option.splits)
next
  case (Fire i)
  with fire_one_pending [OF assms(1)] show ?thesis
    by (simp add: step_def)
qed

lemma run_one_pending:
  assumes "one_pending (state c)" and "handlers_leave_debounce c"
  shows "one_pending (state (run E evs c))"
  using assms
proof (induction evs arbitrary: c)
  case Nil
  then show ?case by (simp add: run_def)
next
  case (Cons ev evs)
  have "one_pending (state (step E ev c))"
    using Cons.prems by (rule step_one_pending)
  moreover have "handlers_leave_debounce (step E ev c)"
    using Cons.prems(2) by (simp add: handlers_leave_debounce_def)
  ultimately have "one_pending (state (run E evs (step E ev c)))"
    by (rule Cons.IH)
  then show ?case by (simp add: run_def)
qed

lemma use_leaves_debounce:
  assumes "use E k fn c = Inr c'" and "leaves_debounce fn" and "handlers_leave_debounce c"
  shows "handlers_leave_debounce c' \<and> state c' = state c"
proof (cases "normalize E k")
  case (KNum n)
  with assms(1) have c': "c' = c\<lparr>handlers := (handlers c)
      (n \<mapsto> (case handlers c n of None \<Rightarrow> [] | Some hs \<Rightarrow> hs) @ [fn])\<rparr>"
    by (simp add: use_def)
  from assms(2,3) show ?thesis
    by (auto simp: c' handlers_leave_debounce_def split: option.splits)
next
  case (KStr nm)
  with assms(1) show ?thesis by (simp add: use_def)
next
  case KOther
  with assms(1) show ?thesis by (simp add: use_def)
qed

lemma default_handlers_leave_debounce:
  "leaves_debounce on_up" "leaves_debounce on_down"
  "leaves_debounce on_left" "leaves_debounce on_right"
  by (simp_all add: leaves_debounce_def on_up_def on_down_def on_left_def on_right_def pan_def)

lemma KeyboardController_debounce:
  assumes built: "KeyboardController E s0 = Inr c"
    and fresh: "keyupTimeout s0 = None" "timers s0 = []"
  shows "one_pending (state c) \<and> handlers_leave_debounce c"
proof -
  let ?c0 = "\<lparr>handlers = Map.empty,
              state = reset E (s0\<lparr>keystate := [], panSpeed := DEFAULT_KEY_PAN_SPEED E\<rparr>)\<rparr>"
  from built obtain c1 c2 c3 where
    u: "use E (KStr ''up'') on_up ?c0 = Inr c1" "use E (KStr ''down'') on_down c1 = Inr c2"
       "use E (KStr ''left'') on_left c2 = Inr c3" "use E (KStr ''right'') on_right c3 = Inr c"
    by (auto simp: KeyboardController_def Let_def split: sum.splits)
  have h0: "handlers_leave_debounce ?c0"
    by (simp add: handlers_leave_debounce_def)
  note s1 = use_leaves_debounce [OF u(1) default_handlers_leave_debounce(1) h0]
  note s2 = use_leaves_debounce [OF u(2) default_handlers_leave_debounce(2) s1 [THEN conjunct1]]
  note s3 = use_leaves_debounce [OF u(3) default_handlers_leave_debounce(3) s2 [THEN conjunct1]]
  note s4 = use_leaves_debounce [OF u(4) default_handlers_leave_debounce(4) s3 [THEN conjunct1]]
  from s1 s2 s3 s4 have "state c = state ?c0"
    by simp
  then have "one_pending (state c)"
    using fresh by (simp add: one_pending_def reset_debounce clearTimeout_def)
  with s4 show ?thesis by blast
qed

lemma fire_nothing_pending: "timers s = [] \<Longrightarrow> fire i s = s"
  by (simp add: fire_def)

lemma step_quiet:
  assumes "forceUpdate (state c)" and "timers (state c) = []"
    and "handlers_leave_debounce c" and "quiet ev"
  shows "forceUpdate (state (step E ev c)) \<and> timers (state (step E ev c)) = []"
proof (cases ev)
  case (KeyDown sc e)
  with assms(1,2) show ?thesis
    by (simp add: step_def onkeydown_debounce clearTimeout_def split: option.splits)
next
  case (KeyUp sc e)
  with assms(4) have "\<not> (forceFocus sc \<or> isFocused sc)"
    by (simp add: quiet_def)
  from onkeyup_blurred [OF this, of "state c" e] assms(1,2) KeyUp show ?thesis
    by (simp add: step_def same_debounce_def)
next
  case Tick
  from tick_debounce(1) [OF assms(3), of E] assms(1,2) Tick show ?thesis
    by (simp add: same_debounce_def)
next
  case Reset
  with assms(4) show ?thesis by (simp add: quiet_def)
next
  case (Fire i)
  with assms(1,2) show ?thesis
    by (simp add: step_def fire_nothing_pending)
qed

lemma run_quiet:
  assumes "forceUpdate (state c)" and "timers (state c) = []"
    and "handlers_leave_debounce c" and "list_all quiet evs"
  shows "forceUpdate (state (run E evs c)) \<and> timers (state (run E evs c)) = []"
  using assms
proof (induction evs arbitrary: c)
  case Nil
  then show ?case by (simp add: run_def)
next
  case (Cons ev evs)
  from Cons.prems have q: "quiet ev" and qs: "list_all quiet evs"
    by simp_all
  have st: "forceUpdate (state (step E ev c)) \<and> timers (state (step E ev c)) = []"
    using Cons.prems(1-3) q by (rule step_quiet)
  have "handlers_leave_debounce (step E ev c)"
    using Cons.prems(3) by (simp add: handlers_leave_debounce_def)
  with st qs have "forceUpdate (state (run E evs (step E ev c)))
      \<and> timers (state (run E evs (step E ev c))) = []"
    by (intro Cons.IH) simp_all
  then show ?case by (simp add: run_def)
qed

lemma table_controller_debounce:
  "one_pending (state table_controller)" "handlers_leave_debounce table_controller"
  by (auto simp: one_pending_def handlers_leave_debounce_def table_controller_def
        base_state_def default_handlers_leave_debounce split: if_splits)

lemma released_state:
  "onkeyup focused_scope \<lparr>which = 38\<rparr> (state table_controller) =
     (state table_controller)\<lparr>forceUpdate := True, keystate := [(38, False)],
        keyupTimeout := Some 0, timers := [(0, 600)], nextTimer := 1\<rparr>"
  by (simp add: onkeyup_def Let_def setTimeout_def clearTimeout_def focused_scope_def
        table_controller_def base_state_def)

subsection \<open>Key-down filtering\<close>

text \<open>
  C1: \<open>onkeydown\<close> sets \<open>keystate[code] = true\<close> exactly when the controller is enabled, the
  scene is focused (\<open>forceFocus\<close> or \<open>isFocused\<close>), the code is one of the supported codes and
  the code is not marked \<open>true\<close> in the constraints; in every other case the key state is
  left as it was. In particular a code that is not supported never becomes held.
\<close>

theorem onkeydown_keystate:
  "keystate (onkeydown E sc e s) =
     (if isEnabled s \<and> (forceFocus sc \<or> isFocused sc) \<and>
         Some (which e) \<in> set (supported E) \<and> \<not> constrained sc (which e)
      then AList.update (which e) True (keystate s)
      else keystate s)
   \<and> (isEnabled s \<and> (forceFocus sc \<or> isFocused sc) \<and>
         Some (which e) \<in> set (supported E) \<and> \<not> constrained sc (which e)
       \<longrightarrow> map_of (keystate (onkeydown E sc e s)) (which e) = Some True)
   \<and> (Some (which e) \<notin> set (supported E)
       \<longrightarrow> keystate (onkeydown E sc e s) = keystate s)"
  by (simp add: onkeydown_def Let_def supported_numeric update_conv')

theorem onkeydown_keystate_witness:
  "map_of (keystate (onkeydown table_env focused_scope \<lparr>which = 38\<rparr> base_state)) 38 = Some True
   \<and> Some 65 \<notin> set (supported table_env)
   \<and> keystate (onkeydown table_env focused_scope \<lparr>which = 65\<rparr> base_state) = keystate base_state
   \<and> keystate (onkeydown table_env focused_scope \<lparr>which = 39\<rparr> base_state) = []
   \<and> keystate (onkeydown table_env blurred_scope \<lparr>which = 38\<rparr> base_state) = []"
  using onkeydown_keystate [of table_env focused_scope "\<lparr>which = 38\<rparr>" base_state]
        onkeydown_keystate [of table_env focused_scope "\<lparr>which = 65\<rparr>" base_state]
        onkeydown_keystate [of table_env focused_scope "\<lparr>which = 39\<rparr>" base_state]
        onkeydown_keystate [of table_env blurred_scope "\<lparr>which = 38\<rparr>" base_state]
  by (simp add: table_env_def focused_scope_def blurred_scope_def base_state_def
        supported_def keynames_def keycodes_def constrained_def)

subsection \<open>Key-up\<close>

text \<open>
  C5: for every key code, \<open>onkeyup\<close> records the key as not held, whatever the focus, the
  support or constraint status of the key, and whatever was recorded before.
\<close>

theorem onkeyup_sets_false:
  "map_of (keystate (onkeyup sc e s)) (which e) = Some False"
  by (simp add: onkeyup_def Let_def setTimeout_def clearTimeout_def update_conv'
           split: option.split)

subsection \<open>The idle tick\<close>

text \<open>
  C6: when no entry of the key state is \<open>true\<close>, \<open>update\<close> returns at once: no handler is
  called, no pan command is issued, and the controller is as it was.
\<close>

theorem update_idle:
  "\<not> isKeydown (state c) \<Longrightarrow> update E c = Inr c"
  by (simp add: update_def)

theorem update_idle_witness:
  "\<not> isKeydown (state (bare_controller\<lparr>state := base_state\<lparr>keystate := [(38, False)]\<rparr>\<rparr>))
   \<and> update table_env (bare_controller\<lparr>state := base_state\<lparr>keystate := [(38, False)]\<rparr>\<rparr>)
       = Inr (bare_controller\<lparr>state := base_state\<lparr>keystate := [(38, False)]\<rparr>\<rparr>)"
proof -
  have idle: "\<not> isKeydown (state (bare_controller\<lparr>state := base_state\<lparr>keystate := [(38, False)]\<rparr>\<rparr>))"
    by (simp add: isKeydown_def)
  from idle update_idle [OF idle, of table_env] show ?thesis
    by simp
qed

subsection \<open>Registering handlers\<close>

text \<open>
  C8: \<open>use\<close> throws a TypeError exactly when the key, after a string has been resolved
  through the name lookup, is not a number: that is, when it is neither a string nor a
  number, or a string the lookup does not know. When it throws, the controller (and so the
  registry) is unchanged; when it does not, the handler is appended to the list of the
  resolved code, an absent list counting as empty, and nothing else changes.
\<close>

theorem use_throws_iff:
  "(isl (use E k fn c) \<longleftrightarrow> (\<forall>n. normalize E k \<noteq> KNum n))
   \<and> ((\<forall>n. normalize E k \<noteq> KNum n) \<longleftrightarrow>
        k = KOther \<or> (\<exists>nm. k = KStr nm \<and> keycode E nm = None))
   \<and> (\<forall>err c'. use E k fn c = Inl (err, c') \<longrightarrow>
        c' = c \<and> err = TypeError ''Expecting string or number.'')
   \<and> (\<forall>n. normalize E k = KNum n \<longrightarrow>
        use E k fn c =
          Inr (c\<lparr>handlers := (handlers c)
                 (n \<mapsto> (case handlers c n of None \<Rightarrow> [] | Some hs \<Rightarrow> hs) @ [fn])\<rparr>))"
  by (cases k; cases "normalize E k")
     (auto simp: use_def normalize_def split: option.splits)

theorem use_throws_iff_witness:
  "isl (use table_env (KStr ''enter'') on_up bare_controller)
   \<and> isl (use table_env KOther on_up bare_controller)
   \<and> normalize table_env (KStr ''up'') = KNum 38
   \<and> use table_env (KStr ''up'') on_up bare_controller
       = Inr (bare_controller\<lparr>handlers := [38 \<mapsto> [on_up]]\<rparr>)"
proof -
  have enter: "\<forall>n. normalize table_env (KStr ''enter'') \<noteq> KNum n"
    by (simp add: normalize_def table_env_def keycodes_def)
  have other: "\<forall>n. normalize table_env KOther \<noteq> KNum n"
    by (simp add: normalize_def)
  have up: "normalize table_env (KStr ''up'') = KNum 38"
    by (simp add: normalize_def table_env_def keycodes_def)
  have a: "isl (use table_env (KStr ''enter'') on_up bare_controller)"
    using use_throws_iff [of table_env "KStr ''enter''" on_up bare_controller] enter
    by blast
  have b: "isl (use table_env KOther on_up bare_controller)"
    using use_throws_iff [of table_env KOther on_up bare_controller] other
    by blast
  have "use table_env (KStr ''up'') on_up bare_controller
          = Inr (bare_controller\<lparr>handlers := (handlers bare_controller)
                 (38 \<mapsto> (case handlers bare_controller 38 of None \<Rightarrow> [] | Some hs \<Rightarrow> hs) @ [on_up])\<rparr>)"
    using use_throws_iff [of table_env "KStr ''up''" on_up bare_controller] up
    by blast
  then have c: "use table_env (KStr ''up'') on_up bare_controller
          = Inr (bare_controller\<lparr>handlers := [38 \<mapsto> [on_up]]\<rparr>)"
    by (simp add: bare_controller_def)
  from a b up c show ?thesis by blast
qed

subsection \<open>Forwarding of raw key events\<close>

text \<open>
  C3 claims that every key-down and every key-up is forwarded through \<open>scope.emit\<close>,
  whatever the controller did with it. A disabled controller forwards nothing on a
  key-down, and \<open>onkeyup\<close> forwards nothing at all.
\<close>

theorem emit_always_counterexample:
  "emitted (onkeydown table_env focused_scope \<lparr>which = 38\<rparr> (base_state\<lparr>isEnabled := False\<rparr>)) = []
   \<and> emitted (onkeydown table_env focused_scope \<lparr>which = 65\<rparr> base_state) = []
   \<and> emitted (onkeyup focused_scope \<lparr>which = 38\<rparr> base_state) = []"
  by (simp add: onkeydown_def onkeyup_def Let_def base_state_def focused_scope_def
        table_env_def isKeySupported_def normalize_def supported_def keynames_def
        keycodes_def constrained_def setTimeout_def clearTimeout_def)

text \<open>
  C3 as amended: \<open>onkeydown\<close> forwards a raw "keydown" notification exactly when the
  controller is enabled and the scene is unfocused, or the controller is enabled, the scene
  is focused and the key is supported and not constrained; a disabled controller, and a
  focused one that rejects the key, forward nothing. \<open>onkeyup\<close> forwards nothing.
\<close>

theorem emit_keydown_when:
  "emitted (onkeydown E sc e s) =
     (if isEnabled s \<and>
         ((forceFocus sc \<or> isFocused sc) \<longrightarrow>
            Some (which e) \<in> set (supported E) \<and> \<not> constrained sc (which e))
      then emitted s @ [(''keydown'', e)]
      else emitted s)
   \<and> emitted (onkeyup sc e s) = emitted s"
  by (simp add: onkeydown_def onkeyup_def Let_def supported_numeric setTimeout_def)

theorem emit_keydown_when_witness:
  "emitted (onkeydown table_env focused_scope \<lparr>which = 38\<rparr> base_state) = [(''keydown'', \<lparr>which = 38\<rparr>)]
   \<and> emitted (onkeydown table_env blurred_scope \<lparr>which = 65\<rparr> base_state) = [(''keydown'', \<lparr>which = 65\<rparr>)]
   \<and> emitted (onkeydown table_env focused_scope \<lparr>which = 39\<rparr> base_state) = []
   \<and> emitted (onkeyup blurred_scope \<lparr>which = 38\<rparr> base_state) = []"
  using emit_keydown_when [of table_env focused_scope "\<lparr>which = 38\<rparr>" base_state]
        emit_keydown_when [of table_env blurred_scope "\<lparr>which = 65\<rparr>" base_state]
        emit_keydown_when [of table_env focused_scope "\<lparr>which = 39\<rparr>" base_state]
        emit_keydown_when [of table_env blurred_scope "\<lparr>which = 38\<rparr>" base_state]
  by (simp add: table_env_def focused_scope_def blurred_scope_def base_state_def
        supported_def keynames_def keycodes_def constrained_def)

subsection \<open>The key code table\<close>

text \<open>
  C9 claims that the exported \<open>keycodes\<close> table holds exactly the four supported
  directions. It also holds \<open>esc\<close> and \<open>space\<close>, which are not supported key names.
\<close>

theorem keycodes_four_counterexample:
  "map_of keycodes ''esc'' = Some 27 \<and> ''esc'' \<notin> set keynames
   \<and> map_of keycodes ''space'' = Some 32 \<and> ''space'' \<notin> set keynames
   \<and> length keycodes = 6"
  by (simp add: keycodes_def keynames_def)

text \<open>
  C9 as amended: the exported \<open>keycodes\<close> table holds the four supported directions (up 38,
  down 40, left 37, right 39) and, besides them, \<open>esc\<close> (27) and \<open>space\<close> (32), which are not
  supported. The supported codes are the codes the name lookup gives for the fixed list
  up, down, left, right; they are the table's codes for these names whenever the lookup
  agrees with the table on them.
\<close>

theorem keycodes_table:
  "map fst keycodes = [''esc'', ''space'', ''left'', ''up'', ''right'', ''down'']
   \<and> set (map fst keycodes) = set keynames \<union> {''esc'', ''space''}
   \<and> map (map_of keycodes) keynames = [Some 38, Some 40, Some 37, Some 39]
   \<and> (map (keycode E) keynames = map (map_of keycodes) keynames \<longrightarrow>
        supported E = [Some 38, Some 40, Some 37, Some 39]
        \<and> Some 27 \<notin> set (supported E) \<and> Some 32 \<notin> set (supported E))"
  by (auto simp: keycodes_def keynames_def supported_def)

theorem keycodes_table_witness:
  "map (keycode table_env) keynames = map (map_of keycodes) keynames
   \<and> supported table_env = [Some 38, Some 40, Some 37, Some 39]"
  using keycodes_table [of table_env]
  by (simp add: table_env_def)


subsection \<open>The default bindings\<close>

text \<open>
  C2: the four bindings installed by the constructor issue exactly these pan deltas when
  their key is held on a tick: up \<open>{x: 0, y: -panSpeed/2}\<close>, down \<open>{x: 0, y: panSpeed/2}\<close>,
  left \<open>{x: -panSpeed*2, y: 0}\<close>, right \<open>{x: panSpeed*2, y: 0}\<close>. One \<open>update\<close> of the
  constructed controller, in any state \<open>s\<close>, appends to the issued pan commands the delta of
  each held key, in the order up, down, left, right, and nothing else.
\<close>

theorem default_bindings_pan:
  assumes "standard_lookup E" and "KeyboardController E s0 = Inr c"
  shows "update E (c\<lparr>state := s\<rparr>) =
     Inr (c\<lparr>state :=
        if isKeydown s
        then s\<lparr>pans := pans s
                  @ (if held s 38 then [(0, - panSpeed s / 2)] else [])
                  @ (if held s 40 then [(0, panSpeed s / 2)] else [])
                  @ (if held s 37 then [(- panSpeed s * 2, 0)] else [])
                  @ (if held s 39 then [(panSpeed s * 2, 0)] else []),
               camera := AxisController_update E (camera s)\<rparr>
        else s\<rparr>)"
proof (cases "isKeydown s")
  case False
  then show ?thesis by (simp add: update_def)
next
  case True
  from assms have c: "handlers c = [38 \<mapsto> [on_up], 40 \<mapsto> [on_down], 37 \<mapsto> [on_left], 39 \<mapsto> [on_right]]"
    by (auto simp: KeyboardController_standard)
  have "each_keycode (handlers c) (state_keycodes E) s =
     Inr (s\<lparr>pans := pans s
                  @ (if held s 38 then [(0, - panSpeed s / 2)] else [])
                  @ (if held s 40 then [(0, panSpeed s / 2)] else [])
                  @ (if held s 37 then [(- panSpeed s * 2, 0)] else [])
                  @ (if held s 39 then [(panSpeed s * 2, 0)] else [])\<rparr>)"
    by (simp add: c state_keycodes_standard [OF assms(1)] call_default_handler
          del: call_handlers.simps if_split cong: if_cong)
  with True show ?thesis by (simp add: update_def)
qed

theorem default_bindings_pan_witness:
  "standard_lookup table_env
   \<and> KeyboardController table_env base_state = Inr table_controller
   \<and> update table_env (table_controller\<lparr>state := (state table_controller)\<lparr>keystate := [(38, True)]\<rparr>\<rparr>)
       = Inr (table_controller\<lparr>state := (state table_controller)\<lparr>keystate := [(38, True)], pans := [(0, - 10)]\<rparr>\<rparr>)
   \<and> update table_env (table_controller\<lparr>state := (state table_controller)\<lparr>keystate := [(40, True)]\<rparr>\<rparr>)
       = Inr (table_controller\<lparr>state := (state table_controller)\<lparr>keystate := [(40, True)], pans := [(0, 10)]\<rparr>\<rparr>)
   \<and> update table_env (table_controller\<lparr>state := (state table_controller)\<lparr>keystate := [(37, True)]\<rparr>\<rparr>)
       = Inr (table_controller\<lparr>state := (state table_controller)\<lparr>keystate := [(37, True)], pans := [(- 40, 0)]\<rparr>\<rparr>)
   \<and> update table_env (table_controller\<lparr>state := (state table_controller)\<lparr>keystate := [(39, True)]\<rparr>\<rparr>)
       = Inr (table_controller\<lparr>state := (state table_controller)\<lparr>keystate := [(39, True)], pans := [(40, 0)]\<rparr>\<rparr>)"
proof -
  have lookup: "standard_lookup table_env"
    by (simp add: standard_lookup_def table_env_def keycodes_def)
  have built: "KeyboardController table_env base_state = Inr table_controller"
    by (simp add: KeyboardController_def Let_def use_def normalize_def registered_def
          table_env_def keycodes_def table_controller_def reset_def base_state_def
          clearTimeout_def)
  note tick = default_bindings_pan [OF lookup built]
  have up: "update table_env (table_controller\<lparr>state := (state table_controller)\<lparr>keystate := [(38, True)]\<rparr>\<rparr>)
       = Inr (table_controller\<lparr>state := (state table_controller)\<lparr>keystate := [(38, True)], pans := [(0, - 10)]\<rparr>\<rparr>)"
    using tick [of "(state table_controller)\<lparr>keystate := [(38, True)]\<rparr>"]
    by (simp add: isKeydown_def held_def table_controller_def base_state_def table_env_def)
  have down: "update table_env (table_controller\<lparr>state := (state table_controller)\<lparr>keystate := [(40, True)]\<rparr>\<rparr>)
       = Inr (table_controller\<lparr>state := (state table_controller)\<lparr>keystate := [(40, True)], pans := [(0, 10)]\<rparr>\<rparr>)"
    using tick [of "(state table_controller)\<lparr>keystate := [(40, True)]\<rparr>"]
    by (simp add: isKeydown_def held_def table_controller_def base_state_def table_env_def)
  have left: "update table_env (table_controller\<lparr>state := (state table_controller)\<lparr>keystate := [(37, True)]\<rparr>\<rparr>)
       = Inr (table_controller\<lparr>state := (state table_controller)\<lparr>keystate := [(37, True)], pans := [(- 40, 0)]\<rparr>\<rparr>)"
    using tick [of "(state table_controller)\<lparr>keystate := [(37, True)]\<rparr>"]
    by (simp add: isKeydown_def held_def table_controller_def base_state_def table_env_def)
  have right: "update table_env (table_controller\<lparr>state := (state table_controller)\<lparr>keystate := [(39, True)]\<rparr>\<rparr>)
       = Inr (table_controller\<lparr>state := (state table_controller)\<lparr>keystate := [(39, True)], pans := [(40, 0)]\<rparr>\<rparr>)"
    using tick [of "(state table_controller)\<lparr>keystate := [(39, True)]\<rparr>"]
    by (simp add: isKeydown_def held_def table_controller_def base_state_def table_env_def)
  from lookup built up down left right show ?thesis by blast
qed

subsection \<open>Several handlers for one key\<close>

text \<open>
  C7: \<open>use\<close> appends to the handler list of the key; it never replaces or reorders what is
  registered and leaves the lists of the other codes alone. After two handlers \<open>h1\<close> and
  \<open>h2\<close> have been registered for the same supported key (given by name or by code), with
  code \<open>n\<close>, every \<open>update\<close> in a state where that key is held, whatever other keys are held,
  makes exactly these calls: for each supported code in the order of \<open>state.keycodes\<close>, when
  the code is held, every handler registered for it in the order of registration, each
  with \<open>{name, code}\<close>; among them, for \<open>n\<close>, the handlers registered earlier and then \<open>h1\<close>
  and \<open>h2\<close>, in this order. The handlers leave the key state alone, so the key is still held
  afterwards and the same happens on the next tick.
\<close>

theorem registered_handlers_run_in_order:
  assumes codes: "state_keycodes E = map Some cs"
    and key: "normalize E k = KNum n" "Some n \<in> set (supported E)"
    and first: "use E k h1 c0 = Inr c1"
    and second: "use E k h2 c1 = Inr c2"
    and lists: "list_all (\<lambda>m. m = n \<or> handlers c0 m \<noteq> None) cs"
    and keep: "list_all (\<lambda>m. list_all keeps_keystate (registered c0 m)) cs"
              "keeps_keystate h1" "keeps_keystate h2"
    and down: "held s n"
  shows "registered c1 n = registered c0 n @ [h1]
     \<and> registered c2 n = registered c0 n @ [h1, h2]
     \<and> (\<forall>m. m \<noteq> n \<longrightarrow> handlers c2 m = handlers c0 m)
     \<and> update E (c2\<lparr>state := s\<rparr>) =
         Inr (c2\<lparr>state :=
            (apply_calls s (tick_calls (registered c2) s cs))
            \<lparr>camera := AxisController_update E
                (camera (apply_calls s (tick_calls (registered c2) s cs)))\<rparr>\<rparr>)
     \<and> (\<exists>before after. tick_calls (registered c2) s cs =
           before @ map (Pair n) (registered c0 n) @ [(n, h1), (n, h2)] @ after)
     \<and> keystate (apply_calls s (tick_calls (registered c2) s cs)) = keystate s"
proof -
  let ?calls = "tick_calls (registered c2) s cs"
  have "supported E = map Some cs"
    using codes by (simp add: supported_def state_keycodes_def)
  with key(2) have n: "n \<in> set cs"
    by auto
  from first key(1) have c1: "c1 = c0\<lparr>handlers := (handlers c0)(n \<mapsto> registered c0 n @ [h1])\<rparr>"
    by (simp add: use_def registered_def)
  from second key(1) have c2: "c2 = c1\<lparr>handlers := (handlers c1)(n \<mapsto> registered c1 n @ [h2])\<rparr>"
    by (simp add: use_def registered_def)
  have r1: "registered c1 n = registered c0 n @ [h1]"
    by (simp add: c1 registered_def)
  have r2: "registered c2 n = registered c0 n @ [h1, h2]"
    by (simp add: c2 c1 registered_def)
  have other: "handlers c2 m = handlers c0 m" if "m \<noteq> n" for m
    using that by (simp add: c2 c1)
  have there: "handlers c2 n = Some (registered c2 n)"
    by (simp add: c2 c1 registered_def)
  have per: "handlers c2 m = Some (registered c2 m) \<and> list_all keeps_keystate (registered c2 m)"
    if m: "m \<in> set cs" for m
  proof (cases "m = n")
    case True
    from keep(1) m have "list_all keeps_keystate (registered c0 m)"
      by (simp add: list_all_iff)
    with True keep(2,3) there show ?thesis
      by (simp add: r2)
  next
    case False
    from lists m False have "handlers c0 m \<noteq> None"
      by (auto simp: list_all_iff)
    then have "handlers c2 m = Some (registered c2 m)"
      using other [OF False] by (auto simp: registered_def)
    moreover have "registered c2 m = registered c0 m"
      using other [OF False] by (simp add: registered_def)
    moreover from keep(1) m have "list_all keeps_keystate (registered c0 m)"
      by (simp add: list_all_iff)
    ultimately show ?thesis by simp
  qed
  have ok: "list_all (\<lambda>m. handlers c2 m = Some (registered c2 m)
              \<and> list_all keeps_keystate (registered c2 m)) cs"
    by (rule iffD2 [OF list_all_iff]) (rule ballI, erule per)
  have dispatch: "each_keycode (handlers c2) (state_keycodes E) s = Inr (apply_calls s ?calls)"
    unfolding codes by (rule each_keycode_calls [OF ok])
  from down have "isKeydown s"
    by (auto simp: isKeydown_iff held_def)
  with dispatch have tick: "update E (c2\<lparr>state := s\<rparr>) =
      Inr (c2\<lparr>state := (apply_calls s ?calls)
             \<lparr>camera := AxisController_update E (camera (apply_calls s ?calls))\<rparr>\<rparr>)"
    by (simp add: update_def)
  from tick_calls_segment [OF n down, of "registered c2"]
  have seg: "\<exists>before after. ?calls =
      before @ map (Pair n) (registered c0 n) @ [(n, h1), (n, h2)] @ after"
    by (simp add: r2)
  have "list_all (\<lambda>m. list_all keeps_keystate (registered c2 m)) cs"
    by (rule iffD2 [OF list_all_iff]) (rule ballI, drule per, erule conjunct2)
  then have "list_all (\<lambda>p. keeps_keystate (snd p)) ?calls"
    by (rule tick_calls_keep)
  then have same: "keystate (apply_calls s ?calls) = keystate s"
    by (rule apply_calls_keystate)
  from r1 r2 other tick seg same show ?thesis by blast
qed

theorem registered_handlers_run_in_order_witness:
  "state_keycodes table_env = map Some [38, 40, 37, 39]
   \<and> normalize table_env (KStr ''down'') = KNum 40
   \<and> Some 40 \<in> set (supported table_env)
   \<and> use table_env (KStr ''down'') probe_a table_controller
       = Inr (table_controller\<lparr>handlers := (handlers table_controller)(40 \<mapsto> [on_down, probe_a])\<rparr>)
   \<and> use table_env (KStr ''down'') probe_b
         (table_controller\<lparr>handlers := (handlers table_controller)(40 \<mapsto> [on_down, probe_a])\<rparr>)
       = Inr (table_controller\<lparr>handlers := (handlers table_controller)(40 \<mapsto> [on_down, probe_a, probe_b])\<rparr>)
   \<and> held ((state table_controller)\<lparr>keystate := [(38, True), (40, True)]\<rparr>) 40
   \<and> held ((state table_controller)\<lparr>keystate := [(38, True), (40, True)]\<rparr>) 38
   \<and> update table_env
         (table_controller\<lparr>handlers := (handlers table_controller)(40 \<mapsto> [on_down, probe_a, probe_b]),
                           state := (state table_controller)\<lparr>keystate := [(38, True), (40, True)]\<rparr>\<rparr>)
       = Inr (table_controller\<lparr>handlers := (handlers table_controller)(40 \<mapsto> [on_down, probe_a, probe_b]),
                state := (state table_controller)\<lparr>keystate := [(38, True), (40, True)],
                           pans := [(0, - 10), (0, 10), (40, 1), (40, 2)]\<rparr>\<rparr>)"
proof -
  let ?c1 = "table_controller\<lparr>handlers := (handlers table_controller)(40 \<mapsto> [on_down, probe_a])\<rparr>"
  let ?c2 = "table_controller\<lparr>handlers := (handlers table_controller)(40 \<mapsto> [on_down, probe_a, probe_b])\<rparr>"
  let ?s = "(state table_controller)\<lparr>keystate := [(38, True), (40, True)]\<rparr>"
  have codes: "state_keycodes table_env = map Some [38, 40, 37, 39]"
    by (simp add: state_keycodes_def keynames_def table_env_def keycodes_def)
  have key: "normalize table_env (KStr ''down'') = KNum 40"
    by (simp add: normalize_def table_env_def keycodes_def)
  have sup: "Some 40 \<in> set (supported table_env)"
    by (simp add: supported_def keynames_def table_env_def keycodes_def)
  have first: "use table_env (KStr ''down'') probe_a table_controller = Inr ?c1"
    by (simp add: use_def key table_controller_def)
  have second: "use table_env (KStr ''down'') probe_b ?c1 = Inr ?c2"
    by (simp add: use_def key table_controller_def)
  have lists: "list_all (\<lambda>m. m = 40 \<or> handlers table_controller m \<noteq> None) [38, 40, 37, 39]"
    by (simp add: table_controller_def)
  have keep: "list_all (\<lambda>m. list_all keeps_keystate (registered table_controller m))
                [38, 40, 37, 39]"
    by (simp add: registered_def table_controller_def keeps_keystate_def)
  have probes: "keeps_keystate probe_a" "keeps_keystate probe_b"
    by (simp_all add: keeps_keystate_def probe_a_def probe_b_def pan_def)
  have down: "held ?s 40" and up: "held ?s 38"
    by (simp_all add: held_def)
  have calls: "tick_calls (registered ?c2) ?s [38, 40, 37, 39] =
      [(38, on_up), (40, on_down), (40, probe_a), (40, probe_b)]"
    by (simp add: tick_calls_def held_def registered_def table_controller_def)
  have after: "apply_calls ?s [(38, on_up), (40, on_down), (40, probe_a), (40, probe_b)] =
      ?s\<lparr>pans := [(0, - 10), (0, 10), (40, 1), (40, 2)]\<rparr>"
    by (simp add: apply_calls_def on_up_def on_down_def probe_a_def probe_b_def pan_def
          table_controller_def base_state_def)
  from registered_handlers_run_in_order
         [OF codes key sup first second lists keep probes down]
  have "update table_env (?c2\<lparr>state := ?s\<rparr>) =
      Inr (?c2\<lparr>state := ?s\<lparr>pans := [(0, - 10), (0, 10), (40, 1), (40, 2)]\<rparr>\<rparr>)"
    unfolding calls after by (simp add: table_env_def table_controller_def base_state_def)
  then have tick: "update table_env
         (table_controller\<lparr>handlers := (handlers table_controller)(40 \<mapsto> [on_down, probe_a, probe_b]),
                           state := ?s\<rparr>)
       = Inr (table_controller\<lparr>handlers := (handlers table_controller)(40 \<mapsto> [on_down, probe_a, probe_b]),
                state := (state table_controller)\<lparr>keystate := [(38, True), (40, True)],
                           pans := [(0, - 10), (0, 10), (40, 1), (40, 2)]\<rparr>\<rparr>)"
    by simp
  from codes key sup first second down up tick show ?thesis by blast
qed

subsection \<open>The release timer\<close>

text \<open>
  C4: in every state \<open>t\<close> the controller reaches, at most one release timer is pending. A
  key-up while the scene is focused sets \<open>forceUpdate\<close>, cancels the pending timer and
  schedules exactly one new timer, with a fresh handle and the scene's
  \<open>controllerUpdateTimeout\<close> as delay, whose firing clears \<open>forceUpdate\<close>; so a second
  focused key-up within the window replaces the earlier timer instead of adding to it.
  The states reached are those of any run of key events, ticks, resets and timer firings
  from a controller with at most one pending timer whose handlers leave the debounce
  fields alone, as the constructor builds it (\<open>KeyboardController_debounce\<close>).
\<close>

theorem release_timer_unique:
  assumes inv: "one_pending (state c)" and safe: "handlers_leave_debounce c"
    and reach: "t = state (run E evs c)"
  shows "length (timers t) \<le> 1
     \<and> (forceFocus sc \<or> isFocused sc \<longrightarrow>
          forceUpdate (onkeyup sc e t)
        \<and> keyupTimeout (onkeyup sc e t) = Some (nextTimer t)
        \<and> timers (onkeyup sc e t) = [(nextTimer t, controllerUpdateTimeout sc)]
        \<and> keyupTimeout t \<noteq> Some (nextTimer t)
        \<and> \<not> forceUpdate (fire (nextTimer t) (onkeyup sc e t))
        \<and> timers (fire (nextTimer t) (onkeyup sc e t)) = [])"
proof -
  have t: "one_pending t"
    unfolding reach using inv safe by (rule run_one_pending)
  then have one: "length (timers t) \<le> 1"
    by (simp add: one_pending_def)
  from t have old: "keyupTimeout t \<noteq> Some (nextTimer t)"
    by (auto simp: one_pending_def)
  have up: "forceUpdate (onkeyup sc e t)
        \<and> keyupTimeout (onkeyup sc e t) = Some (nextTimer t)
        \<and> timers (onkeyup sc e t) = [(nextTimer t, controllerUpdateTimeout sc)]
        \<and> \<not> forceUpdate (fire (nextTimer t) (onkeyup sc e t))
        \<and> timers (fire (nextTimer t) (onkeyup sc e t)) = []"
    if f: "forceFocus sc \<or> isFocused sc"
    using clearTimeout_one_pending [OF t]
    by (simp add: onkeyup_focused [OF f] fire_def)
  from one old up show ?thesis by blast
qed

theorem release_timer_unique_witness:
  "one_pending (state table_controller)
   \<and> handlers_leave_debounce table_controller
   \<and> state (run table_env [KeyUp focused_scope \<lparr>which = 38\<rparr>] table_controller)
       = (state table_controller)\<lparr>forceUpdate := True, keystate := [(38, False)],
            keyupTimeout := Some 0, timers := [(0, 600)], nextTimer := 1\<rparr>
   \<and> timers (onkeyup focused_scope \<lparr>which = 40\<rparr>
         (state (run table_env [KeyUp focused_scope \<lparr>which = 38\<rparr>] table_controller)))
       = [(1, 600)]
   \<and> \<not> forceUpdate (fire 1 (onkeyup focused_scope \<lparr>which = 40\<rparr>
         (state (run table_env [KeyUp focused_scope \<lparr>which = 38\<rparr>] table_controller))))"
proof -
  let ?t = "state (run table_env [KeyUp focused_scope \<lparr>which = 38\<rparr>] table_controller)"
  have t: "?t = (state table_controller)\<lparr>forceUpdate := True, keystate := [(38, False)],
            keyupTimeout := Some 0, timers := [(0, 600)], nextTimer := 1\<rparr>"
    by (simp add: run_def step_def released_state)
  have focus: "forceFocus focused_scope \<or> isFocused focused_scope"
    by (simp add: focused_scope_def)
  have next_t: "nextTimer ?t = 1"
    by (simp add: t)
  have delay: "controllerUpdateTimeout focused_scope = 600"
    by (simp add: focused_scope_def)
  from release_timer_unique [OF table_controller_debounce refl,
      of table_env "[KeyUp focused_scope \<lparr>which = 38\<rparr>]" focused_scope "\<lparr>which = 40\<rparr>"]
    focus
  have "timers (onkeyup focused_scope \<lparr>which = 40\<rparr> ?t) = [(1, 600)]
      \<and> \<not> forceUpdate (fire 1 (onkeyup focused_scope \<lparr>which = 40\<rparr> ?t))"
    unfolding next_t delay by blast
  with table_controller_debounce t show ?thesis by blast
qed

subsection \<open>A key-down during the debounce window\<close>

text \<open>
  C10: every \<open>onkeydown\<close>, whether or not the key is accepted, first cancels the pending
  release timer and leaves \<open>forceUpdate\<close> as it is. So after a key-down no timer is pending,
  no firing can clear \<open>forceUpdate\<close>, and a \<open>forceUpdate\<close> that was \<open>true\<close> stays \<open>true\<close>
  through every later run of events that contains neither a focused key-up nor a
  \<open>reset\<close>.
\<close>

theorem keydown_cancels_release:
  "(keyupTimeout s = Some h \<longrightarrow> h \<notin> fst ` set (timers (onkeydown E sc e s)))
   \<and> forceUpdate (onkeydown E sc e s) = forceUpdate s
   \<and> (one_pending s \<longrightarrow>
        timers (onkeydown E sc e s) = []
        \<and> (\<forall>i. fire i (onkeydown E sc e s) = onkeydown E sc e s))
   \<and> (one_pending s \<and> forceUpdate s \<and> handlers_leave_debounce c
        \<and> state c = onkeydown E sc e s \<and> list_all quiet evs \<longrightarrow>
        forceUpdate (state (run E evs c)) \<and> timers (state (run E evs c)) = [])"
proof -
  have a: "h \<notin> fst ` set (timers (onkeydown E sc e s))" if "keyupTimeout s = Some h"
    using that by (auto simp: onkeydown_debounce clearTimeout_def)
  have b: "forceUpdate (onkeydown E sc e s) = forceUpdate s"
    by (simp add: onkeydown_debounce)
  have c: "timers (onkeydown E sc e s) = []" if "one_pending s"
    using clearTimeout_one_pending [OF that] by (simp add: onkeydown_debounce)
  have d: "\<forall>i. fire i (onkeydown E sc e s) = onkeydown E sc e s" if "one_pending s"
    using c [OF that] by (simp add: fire_nothing_pending)
  have e: "forceUpdate (state (run E evs c)) \<and> timers (state (run E evs c)) = []"
    if "one_pending s" "forceUpdate s" "handlers_leave_debounce c"
       "state c = onkeydown E sc e s" "list_all quiet evs"
  proof (rule run_quiet)
    show "forceUpdate (state c)" using that(2,4) b by simp
    show "timers (state c) = []" using that(1,4) c by simp
    show "handlers_leave_debounce c" by (rule that(3))
    show "list_all quiet evs" by (rule that(5))
  qed
  from a b c d e show ?thesis by blast
qed

theorem keydown_cancels_release_witness:
  "keyupTimeout (onkeyup focused_scope \<lparr>which = 38\<rparr> (state table_controller)) = Some 0
   \<and> one_pending (onkeyup focused_scope \<lparr>which = 38\<rparr> (state table_controller))
   \<and> forceUpdate (onkeyup focused_scope \<lparr>which = 38\<rparr> (state table_controller))
   \<and> timers (onkeyup focused_scope \<lparr>which = 38\<rparr> (state table_controller)) = [(0, 600)]
   \<and> timers (onkeydown table_env blurred_scope \<lparr>which = 65\<rparr>
        (onkeyup focused_scope \<lparr>which = 38\<rparr> (state table_controller))) = []
   \<and> handlers_leave_debounce
        (table_controller\<lparr>state := onkeydown table_env blurred_scope \<lparr>which = 65\<rparr>
           (onkeyup focused_scope \<lparr>which = 38\<rparr> (state table_controller))\<rparr>)
   \<and> list_all quiet
        [Fire 0, Tick, KeyUp blurred_scope \<lparr>which = 38\<rparr>, KeyDown focused_scope \<lparr>which = 38\<rparr>, Tick]
   \<and> forceUpdate (state (run table_env
        [Fire 0, Tick, KeyUp blurred_scope \<lparr>which = 38\<rparr>, KeyDown focused_scope \<lparr>which = 38\<rparr>, Tick]
        (table_controller\<lparr>state := onkeydown table_env blurred_scope \<lparr>which = 65\<rparr>
           (onkeyup focused_scope \<lparr>which = 38\<rparr> (state table_controller))\<rparr>)))"
proof -
  let ?s = "onkeyup focused_scope \<lparr>which = 38\<rparr> (state table_controller)"
  let ?c = "table_controller\<lparr>state := onkeydown table_env blurred_scope \<lparr>which = 65\<rparr> ?s\<rparr>"
  let ?evs = "[Fire 0, Tick, KeyUp blurred_scope \<lparr>which = 38\<rparr>,
               KeyDown focused_scope \<lparr>which = 38\<rparr>, Tick]"
  have handle: "keyupTimeout ?s = Some 0" and force: "forceUpdate ?s"
    and pending: "timers ?s = [(0, 600)]"
    by (simp_all add: released_state)
  have inv: "one_pending ?s"
    by (simp add: released_state one_pending_def)
  have safe: "handlers_leave_debounce ?c"
    using table_controller_debounce(2) by (simp add: handlers_leave_debounce_def)
  have q: "list_all quiet ?evs"
    by (simp add: quiet_def blurred_scope_def)
  note k = keydown_cancels_release
      [of ?s 0 table_env blurred_scope "\<lparr>which = 65\<rparr>" ?c ?evs]
  from k inv have cancelled: "timers (onkeydown table_env blurred_scope \<lparr>which = 65\<rparr> ?s) = []"
    by blast
  have "state ?c = onkeydown table_env blurred_scope \<lparr>which = 65\<rparr> ?s"
    by simp
  with k inv force safe q have "forceUpdate (state (run table_env ?evs ?c))"
    by blast
  with handle inv force pending cancelled safe q show ?thesis by blast
qed

end
